theory Spec2Isabelle
  imports Complex_Main
begin

section \<open>JavaScript values used by the trading journal\<close>

text \<open>
  The journal is a browser program (a class \<open>TradingJournal\<close>). Its latest revision adds
  editing and deletion of trades to the earlier ones and is the one embedded here; where an
  earlier revision differs (the export row), the earlier function is given as well.

  Strings are lists of 8-bit characters: every code unit the program inspects (comma,
  double quote, line feed, white space, digits) is in that range. Numbers are JavaScript
  numbers with ideal arithmetic: a finite number is a rational, and the rounding and the
  range of an IEEE double are outside the model.
\<close>

datatype jsnum = NaN | PInf | NInf | Num rat

abbreviation dquote :: char where "dquote \<equiv> CHR 0x22"
abbreviation newline :: char where "newline \<equiv> CHR 0x0A"
abbreviation comma :: char where "comma \<equiv> CHR 0x2C"

subsection \<open>Arithmetic and comparison of numbers\<close>

fun js_add :: "jsnum \<Rightarrow> jsnum \<Rightarrow> jsnum" where
  "js_add NaN _ = NaN"
| "js_add _ NaN = NaN"
| "js_add PInf NInf = NaN"
| "js_add NInf PInf = NaN"
| "js_add PInf _ = PInf"
| "js_add _ PInf = PInf"
| "js_add NInf _ = NInf"
| "js_add _ NInf = NInf"
| "js_add (Num a) (Num b) = Num (a + b)"

fun js_lt :: "jsnum \<Rightarrow> jsnum \<Rightarrow> bool" where
  "js_lt NaN _ = False"
| "js_lt _ NaN = False"
| "js_lt PInf _ = False"
| "js_lt _ PInf = True"
| "js_lt _ NInf = False"
| "js_lt NInf _ = True"
| "js_lt (Num a) (Num b) = (a < b)"

definition js_gt :: "jsnum \<Rightarrow> jsnum \<Rightarrow> bool" where
  "js_gt a b = js_lt b a"

text \<open>Strict equality \<open>===\<close> on numbers: \<open>NaN\<close> equals nothing, itself included.\<close>

definition js_seq :: "jsnum \<Rightarrow> jsnum \<Rightarrow> bool" where
  "js_seq a b = (a \<noteq> NaN \<and> a = b)"

definition js_ge :: "jsnum \<Rightarrow> jsnum \<Rightarrow> bool" where
  "js_ge a b = (js_gt a b \<or> js_seq a b)"





subsection \<open>Strings\<close>

text \<open>White space as \<open>String.prototype.trim\<close> sees it, among 8-bit code units.\<close>

definition is_ws :: "char \<Rightarrow> bool" where
  "is_ws c \<longleftrightarrow> c \<in> {CHR 0x09, CHR 0x0A, CHR 0x0B, CHR 0x0C, CHR 0x0D, CHR 0x20, CHR 0xA0}"

definition js_trim :: "string \<Rightarrow> string" where
  "js_trim s = rev (dropWhile is_ws (rev (dropWhile is_ws s)))"

text \<open>\<open>s.split(c)\<close> for a one-character separator: the result is never empty.\<close>

fun split_on :: "char \<Rightarrow> string \<Rightarrow> string list" where
  "split_on c [] = [[]]"
| "split_on c (x # xs) =
     (if x = c then [] # split_on c xs
      else (case split_on c xs of [] \<Rightarrow> [[x]] | y # ys \<Rightarrow> (x # y) # ys))"

text \<open>\<open>a.join(',')\<close>\<close>

fun join_comma :: "string list \<Rightarrow> string" where
  "join_comma [] = []"
| "join_comma [x] = x"
| "join_comma (x # y # ys) = x @ comma # join_comma (y # ys)"

text \<open>
  \<open>s.replace(/"/g, '""')\<close> and \<open>s.replace(/""/g, '"')\<close> (left to right, matches do not
  overlap).
\<close>

fun double_quotes :: "string \<Rightarrow> string" where
  "double_quotes [] = []"
| "double_quotes (c # cs) = (if c = dquote then dquote # dquote # double_quotes cs
                            else c # double_quotes cs)"

fun unescape_quotes :: "string \<Rightarrow> string" where
  "unescape_quotes (a # b # cs) =
     (if a = dquote \<and> b = dquote then dquote # unescape_quotes cs
      else a # unescape_quotes (b # cs))"
| "unescape_quotes cs = cs"

definition startsWith :: "string \<Rightarrow> string \<Rightarrow> bool" where
  "startsWith s p = (take (length p) s = p)"

text \<open>\<open>s[i]\<close>: \<open>undefined\<close> out of range, which equals no character.\<close>

definition char_at :: "string \<Rightarrow> nat \<Rightarrow> char option" where
  "char_at s i = (if i < length s then Some (s ! i) else None)"

subsection \<open>Numbers and text\<close>

definition is_digit :: "char \<Rightarrow> bool" where
  "is_digit c \<longleftrightarrow> 48 \<le> (of_char c :: nat) \<and> (of_char c :: nat) \<le> 57"

definition is_hex_digit :: "char \<Rightarrow> bool" where
  "is_hex_digit c \<longleftrightarrow> is_digit c
     \<or> (65 \<le> (of_char c :: nat) \<and> (of_char c :: nat) \<le> 70)
     \<or> (97 \<le> (of_char c :: nat) \<and> (of_char c :: nat) \<le> 102)"

definition digit_value :: "char \<Rightarrow> nat" where
  "digit_value c =
     (let n = (of_char c :: nat)
      in if 97 \<le> n then n - 87 else if 65 \<le> n then n - 55 else n - 48)"

definition nat_of_digits :: "nat \<Rightarrow> string \<Rightarrow> nat" where
  "nat_of_digits b ds = foldl (\<lambda>a c. a * b + digit_value c) 0 ds"

text \<open>An optional sign in front of a numeric literal: the factor and the rest.\<close>

fun take_sign :: "string \<Rightarrow> int \<times> string" where
  "take_sign [] = (1, [])"
| "take_sign (c # cs) =
     (if c = CHR ''-'' then (- 1, cs) else if c = CHR ''+'' then (1, cs) else (1, c # cs))"

text \<open>
  \<open>parseInt(s)\<close> with no radix: leading white space is dropped, then a sign, then the
  prefix \<open>0x\<close> selects base 16; the longest run of digits is read, and no digit at all
  gives \<open>NaN\<close>. What follows the digits is ignored.
\<close>

definition parseInt :: "string \<Rightarrow> jsnum" where
  "parseInt s =
     (let (sg, u) = take_sign (dropWhile is_ws s);
          hex = (take 2 u = ''0x'' \<or> take 2 u = ''0X'');
          ds = (if hex then takeWhile is_hex_digit (drop 2 u) else takeWhile is_digit u)
      in if ds = [] then NaN
         else Num (of_int (sg * int (nat_of_digits (if hex then 16 else 10) ds))))"

text \<open>
  \<open>parseFloat(s)\<close>: leading white space is dropped and the longest prefix that is a
  decimal literal is read: a sign, then \<open>Infinity\<close> or digits with an optional fraction
  and an optional exponent. No such prefix gives \<open>NaN\<close>.
\<close>

definition exponent_part :: "string \<Rightarrow> int" where
  "exponent_part r =
     (case r of
        [] \<Rightarrow> 0
      | e # r' \<Rightarrow>
          if e = CHR ''e'' \<or> e = CHR ''E'' then
            (let (sg, u) = take_sign r'; ds = takeWhile is_digit u
             in if ds = [] then 0 else sg * int (nat_of_digits 10 ds))
          else 0)"

definition pow10 :: "int \<Rightarrow> rat" where
  "pow10 e = (if 0 \<le> e then 10 ^ nat e else 1 / 10 ^ nat (- e))"

definition parseFloat :: "string \<Rightarrow> jsnum" where
  "parseFloat s =
     (let (sg, u) = take_sign (dropWhile is_ws s)
      in if startsWith u ''Infinity'' then (if sg < 0 then NInf else PInf)
         else
           (let ip = takeWhile is_digit u;
                r1 = dropWhile is_digit u;
                dot = (r1 \<noteq> [] \<and> hd r1 = CHR ''.'');
                fp = (if dot then takeWhile is_digit (tl r1) else []);
                r2 = (if dot then dropWhile is_digit (tl r1) else r1)
            in if ip = [] \<and> fp = [] then NaN
               else Num (of_int sg
                         * (of_nat (nat_of_digits 10 ip)
                            + of_nat (nat_of_digits 10 fp) / 10 ^ length fp)
                         * pow10 (exponent_part r2))))"

text \<open>\<open>String(n)\<close> for a natural number: its decimal digits.\<close>

fun showNat :: "nat \<Rightarrow> string" where
  "showNat n = (if n < 10 then [char_of (48 + n)]
                else showNat (n div 10) @ [char_of (48 + n mod 10)])"

declare showNat.simps [simp del]

text \<open>
  The least \<open>j\<close> from a start with \<open>r * 10 ^ j\<close> an integer, searched with fuel; a finite
  decimal of denominator \<open>d\<close> needs at most \<open>d\<close> steps.
\<close>

fun dec_scale :: "nat \<Rightarrow> rat \<Rightarrow> nat \<Rightarrow> nat" where
  "dec_scale 0 r j = j"
| "dec_scale (Suc f) r j =
     (if r * 10 ^ j = of_int \<lfloor>r * 10 ^ j\<rfloor> then j else dec_scale f r (Suc j))"

text \<open>A positive number without its trailing zeros, and how many there were.\<close>

fun strip_zeros :: "nat \<Rightarrow> nat \<times> nat" where
  "strip_zeros m =
     (if 0 < m \<and> m mod 10 = 0
      then (let (s, z) = strip_zeros (m div 10) in (s, Suc z))
      else (m, 0))"

declare strip_zeros.simps [simp del]

text \<open>
  \<open>String(x)\<close> for a positive finite number, as the language defines it: with the
  digits \<open>ds\<close> (\<open>k\<close> of them, no trailing zero) and the position \<open>n\<close> of the decimal point,
  plain notation when \<open>-6 < n \<le> 21\<close> and exponent notation otherwise. On a rational that
  is no finite decimal (no stored number is one: they all come from \<open>parseFloat\<close>,
  \<open>parseInt\<close> or the counter) the digits are cut off where the fuel ends.
\<close>

definition showPos :: "rat \<Rightarrow> string" where
  "showPos r =
     (let j = dec_scale (nat (snd (quotient_of r))) r 0;
          (s, z) = strip_zeros (nat \<lfloor>r * 10 ^ j\<rfloor>);
          ds = showNat s;
          k = length ds;
          n = int k + int z - int j
      in if int k \<le> n \<and> n \<le> 21 then ds @ replicate (nat (n - int k)) (CHR ''0'')
         else if 0 < n \<and> n \<le> 21 then take (nat n) ds @ ''.'' @ drop (nat n) ds
         else if - 6 < n \<and> n \<le> 0 then ''0.'' @ replicate (nat (- n)) (CHR ''0'') @ ds
         else (let e = n - 1;
                   es = (if e < 0 then ''-'' else ''+'') @ showNat (nat \<bar>e\<bar>)
               in if k = 1 then ds @ ''e'' @ es
                  else take 1 ds @ ''.'' @ drop 1 ds @ ''e'' @ es))"

fun numToString :: "jsnum \<Rightarrow> string" where
  "numToString NaN = ''NaN''"
| "numToString PInf = ''Infinity''"
| "numToString NInf = ''-Infinity''"
| "numToString (Num r) =
     (if r = 0 then ''0'' else if r < 0 then ''-'' @ showPos (- r) else showPos r)"

section \<open>The journal\<close>

subsection \<open>Records and state\<close>

text \<open>
  A trade is a plain object. The fields \<open>id\<close> and \<open>note\<close> are called \<open>id_t\<close> and
  \<open>note_t\<close> here. The field \<open>ticker\<close> is set by the entry form only: an object built
  by the CSV parser has no such property,
  which is \<open>None\<close>.
\<close>

record trade =
  id_t :: jsnum
  date :: string
  tradeSetup :: string
  ticker :: "string option"
  rr :: string
  pnl :: jsnum
  activeMgmt :: string
  execution :: string
  note_t :: string

text \<open>The instance: the collection, the counter and the id being edited (\<open>null\<close> is \<open>None\<close>).\<close>

record journal =
  trades :: "trade list"
  nextId :: jsnum
  editId :: "jsnum option"

definition CSV_HEADER :: string where
  "CSV_HEADER = ''ID,Date,TradeSetup,RR,PnL,ActiveMgmt,Execution,Note''"

definition initial :: journal where
  "initial = \<lparr>trades = [], nextId = Num 1, editId = None\<rparr>"

text \<open>The values of the form's inputs, as the page holds them.\<close>

record form =
  tradeSetup_in :: string
  ticker_in :: string
  rr_in :: string
  pnl_in :: string
  activeMgmt_in :: string
  execution_in :: string
  note_in :: string

text \<open>What an operation reports through \<open>showStatus\<close>.\<close>

datatype status =
    RRFormatError
  | MissingField string
  | PnlNotNumber
  | UpdateNotFound
  | Updated jsnum
  | Added jsnum
  | EditNotFound
  | EditLoaded
  | EditCancelled
  | Deleted jsnum
  | DeleteNotFound
  | DeleteDeclined
  | Cleared
  | ClearDeclined
  | EmptyFile
  | InvalidHeader
  | Imported nat nat

fun findIndex :: "('a \<Rightarrow> bool) \<Rightarrow> 'a list \<Rightarrow> nat option" where
  "findIndex P [] = None"
| "findIndex P (x # xs) =
     (if P x then Some 0 else map_option Suc (findIndex P xs))"

subsection \<open>Form validation\<close>

text \<open>The pattern \<open>/^\d+(\.\d+)?:1$/\<close>.\<close>

definition rr_pattern :: "string \<Rightarrow> bool" where
  "rr_pattern v =
     (let a = takeWhile is_digit v; r = dropWhile is_digit v
      in a \<noteq> [] \<and>
         (r = '':1'' \<or>
          (r \<noteq> [] \<and> hd r = CHR ''.'' \<and> takeWhile is_digit (tl r) \<noteq> []
           \<and> dropWhile is_digit (tl r) = '':1'')))"

definition validateRRInput :: "form \<Rightarrow> bool" where
  "validateRRInput f = (let v = js_trim (rr_in f) in v = [] \<or> rr_pattern v)"

definition getFormData :: "form \<Rightarrow> form" where
  "getFormData f =
     \<lparr>tradeSetup_in = tradeSetup_in f,
      ticker_in = js_trim (ticker_in f),
      rr_in = js_trim (rr_in f),
      pnl_in = pnl_in f,
      activeMgmt_in = js_trim (activeMgmt_in f),
      execution_in = execution_in f,
      note_in = js_trim (note_in f)\<rparr>"

text \<open>\<open>validateFormData\<close>: the status of the first failed check, or \<open>None\<close> when all pass.\<close>

definition validateFormData :: "form \<Rightarrow> status option" where
  "validateFormData d =
     (if tradeSetup_in d = [] then Some (MissingField ''tradeSetup'')
      else if ticker_in d = [] then Some (MissingField ''ticker'')
      else if rr_in d = [] then Some (MissingField ''rr'')
      else if pnl_in d = [] then Some (MissingField ''pnl'')
      else if activeMgmt_in d = [] then Some (MissingField ''activeMgmt'')
      else if execution_in d = [] then Some (MissingField ''execution'')
      else if parseFloat (pnl_in d) = NaN then Some PnlNotNumber
      else None)"

subsection \<open>Create, update, delete, clear\<close>

text \<open>The object that \<open>addTrade\<close> builds from the form data, for a given id and date.\<close>

definition tradeOfForm :: "jsnum \<Rightarrow> string \<Rightarrow> form \<Rightarrow> trade" where
  "tradeOfForm i d fd =
     \<lparr>id_t = i, date = d, tradeSetup = tradeSetup_in fd, ticker = Some (ticker_in fd),
      rr = rr_in fd, pnl = parseFloat (pnl_in fd), activeMgmt = activeMgmt_in fd,
      execution = execution_in fd, note_t = note_in fd\<rparr>"

text \<open>
  \<open>addTrade\<close>, with the day's date as \<open>today\<close>. In edit mode it replaces the first trade
  whose id is \<open>editId\<close>, keeping its date; otherwise it appends a trade with the counter as id.
\<close>

definition addTrade :: "form \<Rightarrow> string \<Rightarrow> journal \<Rightarrow> status \<times> journal" where
  "addTrade f today s =
     (if \<not> validateRRInput f then (RRFormatError, s)
      else
        (let fd = getFormData f
         in case validateFormData fd of
              Some err \<Rightarrow> (err, s)
            | None \<Rightarrow>
                (case editId s of
                   Some eid \<Rightarrow>
                     (case findIndex (\<lambda>t. js_seq (id_t t) eid) (trades s) of
                        None \<Rightarrow> (UpdateNotFound, s)
                      | Some i \<Rightarrow>
                          (Updated eid,
                           s\<lparr>trades := (trades s)[i := tradeOfForm eid (date (trades s ! i)) fd],
                             editId := None\<rparr>))
                 | None \<Rightarrow>
                     (Added (nextId s),
                      s\<lparr>trades := trades s @ [tradeOfForm (nextId s) today fd],
                        nextId := js_add (nextId s) (Num 1)\<rparr>))))"

definition loadTradeForEdit :: "jsnum \<Rightarrow> journal \<Rightarrow> status \<times> journal" where
  "loadTradeForEdit i s =
     (case find (\<lambda>t. js_seq (id_t t) i) (trades s) of
        None \<Rightarrow> (EditNotFound, s)
      | Some t \<Rightarrow> (EditLoaded, s\<lparr>editId := Some i\<rparr>))"

definition cancelEdit :: "journal \<Rightarrow> status \<times> journal" where
  "cancelEdit s = (EditCancelled, s\<lparr>editId := None\<rparr>)"

text \<open>\<open>xs.splice(i, 1)\<close>\<close>

definition splice1 :: "nat \<Rightarrow> 'a list \<Rightarrow> 'a list" where
  "splice1 i xs = take i xs @ drop (Suc i) xs"

text \<open>\<open>deleteTrade\<close> and \<open>clearAllData\<close>; \<open>ok\<close> is the answer to the confirmation dialog.\<close>

definition deleteTrade :: "jsnum \<Rightarrow> bool \<Rightarrow> journal \<Rightarrow> status \<times> journal" where
  "deleteTrade i ok s =
     (case findIndex (\<lambda>t. js_seq (id_t t) i) (trades s) of
        Some k \<Rightarrow> (if ok then (Deleted i, s\<lparr>trades := splice1 k (trades s)\<rparr>)
                   else (DeleteDeclined, s))
      | None \<Rightarrow> (DeleteNotFound, s))"

definition clearAllData :: "bool \<Rightarrow> journal \<Rightarrow> status \<times> journal" where
  "clearAllData ok s =
     (if ok then (Cleared, s\<lparr>trades := [], nextId := Num 1\<rparr>) else (ClearDeclined, s))"

subsection \<open>Statistics\<close>





subsection \<open>CSV export\<close>

definition needs_quoting :: "string \<Rightarrow> bool" where
  "needs_quoting f \<longleftrightarrow> comma \<in> set f \<or> newline \<in> set f \<or> dquote \<in> set f"

definition escapeCSVField :: "string \<Rightarrow> string" where
  "escapeCSVField f =
     (if needs_quoting f then dquote # double_quotes f @ [dquote] else f)"

text \<open>
  The array of one row before it is joined. The latest revision escapes the note and the
  active-management grade; the two earlier revisions escape the note only.
\<close>

definition rowFields :: "trade \<Rightarrow> string list" where
  "rowFields t =
     [numToString (id_t t), date t, tradeSetup t, rr t, numToString (pnl t),
      escapeCSVField (activeMgmt t), execution t, escapeCSVField (note_t t)]"

definition rowFields_v1 :: "trade \<Rightarrow> string list" where
  "rowFields_v1 t =
     [numToString (id_t t), date t, tradeSetup t, rr t, numToString (pnl t),
      activeMgmt t, execution t, escapeCSVField (note_t t)]"

text \<open>The text handed to the download; \<open>None\<close> is the report that there is nothing to export.\<close>

definition exportRows :: "(trade \<Rightarrow> string list) \<Rightarrow> trade list \<Rightarrow> string" where
  "exportRows row ts = concat (map (\<lambda>t. join_comma (row t) @ [newline]) ts)"

definition exportToCSV :: "journal \<Rightarrow> string option" where
  "exportToCSV s =
     (if length (trades s) = 0 then None
      else Some (CSV_HEADER @ [newline] @ exportRows rowFields (trades s)))"

definition exportToCSV_v1 :: "journal \<Rightarrow> string option" where
  "exportToCSV_v1 s =
     (if length (trades s) = 0 then None
      else Some (CSV_HEADER @ [newline] @ exportRows rowFields_v1 (trades s)))"

subsection \<open>CSV import\<close>

text \<open>
  The scanning loop of \<open>parseCSVLine\<close>: \<open>i\<close> is the index, \<open>cur\<close> the field being read,
  \<open>inq\<close> the quote state, \<open>flds\<close> (the source's \<open>fields\<close>) the fields closed so far.
  The branches are the source's, in its order; the last one steps over the second quote of
  a doubled quote.
\<close>

function scanLine :: "string \<Rightarrow> nat \<Rightarrow> string \<Rightarrow> bool \<Rightarrow> string list \<Rightarrow> string list" where
  "scanLine line i cur inq flds =
     (if i < length line then
        (let c = line ! i
         in if c = dquote \<and> (i = 0 \<or> char_at line (i - 1) = Some comma)
            then scanLine line (i + 1) cur True flds
            else if c = dquote \<and> inq
                    \<and> (i = length line - 1 \<or> char_at line (i + 1) = Some comma)
            then scanLine line (i + 1) cur False flds
            else if c = comma \<and> \<not> inq
            then scanLine line (i + 1) [] inq (flds @ [unescape_quotes cur])
            else if \<not> (c = dquote \<and> inq \<and> char_at line (i + 1) = Some dquote)
            then scanLine line (i + 1) (cur @ [c]) inq flds
            else scanLine line (i + 2) (cur @ [c]) inq flds)
      else flds @ [unescape_quotes cur])"
  by pat_completeness auto
termination
  by (relation "measure (\<lambda>(line, i, cur, inq, flds). length line - i)") auto

declare scanLine.simps [simp del]

definition splitCSVLine :: "string \<Rightarrow> string list" where
  "splitCSVLine line = scanLine line 0 [] False []"

text \<open>\<open>parseCSVLine\<close>: \<open>None\<close> is the source's \<open>null\<close>.\<close>

definition parseCSVLine :: "string \<Rightarrow> trade option" where
  "parseCSVLine line =
     (let flds = splitCSVLine line
      in if length flds \<noteq> 8 then None
         else
           (let i = flds ! 0; d = flds ! 1; ts = flds ! 2; r = flds ! 3;
                p = flds ! 4; am = flds ! 5; ex = flds ! 6; n = flds ! 7
            in if i = [] \<or> d = [] \<or> ts = [] \<or> r = [] \<or> p = [] \<or> am = [] \<or> ex = []
               then None
               else Some \<lparr>id_t = parseInt i, date = js_trim d, tradeSetup = js_trim ts,
                          ticker = None, rr = js_trim r, pnl = parseFloat p,
                          activeMgmt = js_trim am, execution = js_trim ex,
                          note_t = js_trim n\<rparr>))"

text \<open>
  One turn of the loop of \<open>processCSVData\<close> on a data line, on the journal and the two
  counts. The parser raises nothing on a string, so the \<open>catch\<close> branch is never taken.
\<close>

definition importLine :: "string \<Rightarrow> journal \<times> nat \<times> nat \<Rightarrow> journal \<times> nat \<times> nat" where
  "importLine line acc =
     (case acc of (s, importedCount, skippedCount) \<Rightarrow>
        if js_trim line = [] then acc
        else
          (case parseCSVLine line of
             Some t \<Rightarrow>
               (let clash = (find (\<lambda>u. js_seq (id_t u) (id_t t)) (trades s) \<noteq> None);
                    t' = (if clash then t\<lparr>id_t := nextId s\<rparr> else t);
                    n1 = (if clash then js_add (nextId s) (Num 1) else nextId s);
                    n2 = (if js_ge (id_t t') n1 then js_add (id_t t') (Num 1) else n1)
                in (s\<lparr>trades := trades s @ [t'], nextId := n2\<rparr>,
                    importedCount + 1, skippedCount))
           | None \<Rightarrow> (s, importedCount, skippedCount + 1)))"

definition processCSVData :: "string \<Rightarrow> journal \<Rightarrow> status \<times> journal" where
  "processCSVData csvText s =
     (let lines = split_on newline (js_trim csvText)
      in if length lines < 2 then (EmptyFile, s)
         else if js_trim (hd lines) \<noteq> CSV_HEADER then (InvalidHeader, s)
         else
           (case foldl (\<lambda>acc line. importLine line acc) (s, 0, 0) (tl lines) of
              (s', importedCount, skippedCount) \<Rightarrow> (Imported importedCount skippedCount, s')))"

subsection \<open>Notions used to state the properties\<close>

text \<open>A text with no white space at either end.\<close>

definition no_outer_ws :: "string \<Rightarrow> bool" where
  "no_outer_ws s \<longleftrightarrow> (s \<noteq> [] \<longrightarrow> \<not> is_ws (hd s) \<and> \<not> is_ws (last s))"


text \<open>A document saved with carriage returns: its first line is the header and \<open>CR\<close>.\<close>

definition crlf_document :: string where
  "crlf_document = CSV_HEADER @ [CHR 0x0D, newline] @ ''7,2024-01-01,Scalp: W,2:1,5,N/A,A,n''"

definition semicolon_document :: string where
  "semicolon_document = ''ID;Date;TradeSetup;RR;PnL;ActiveMgmt;Execution;Note'' @ [newline]
                        @ ''7;2024-01-01;Scalp: W;2:1;5;N/A;A;n''"

text \<open>A journal of two trades in edit mode, and a filled form.\<close>

definition two_trades :: journal where
  "two_trades =
     \<lparr>trades =
        [\<lparr>id_t = Num 1, date = ''2024-03-01'', tradeSetup = ''Scalp: W'', ticker = Some ''BTC'',
          rr = ''2:1'', pnl = Num 100, activeMgmt = ''N/A'', execution = ''A'', note_t = []\<rparr>,
         \<lparr>id_t = Num 2, date = ''2024-03-02'', tradeSetup = ''Swing: PB'', ticker = Some ''ETH'',
          rr = ''3:1'', pnl = Num (- 50), activeMgmt = ''4'', execution = ''B'',
          note_t = ''late''\<rparr>],
      nextId = Num 3, editId = Some (Num 2)\<rparr>"

definition filled_form :: form where
  "filled_form =
     \<lparr>tradeSetup_in = ''Scalp: T'', ticker_in = '' SOL '', rr_in = '' 1.5:1'', pnl_in = ''75.5'',
      activeMgmt_in = ''5 '', execution_in = ''A'', note_in = '' fixed ''\<rparr>"

text \<open>A trade whose setup text holds a comma.\<close>

definition comma_setup_trade :: trade where
  "comma_setup_trade =
     \<lparr>id_t = Num 1, date = ''2024-03-01'', tradeSetup = ''Scalp: W,T'', ticker = None,
      rr = ''2:1'', pnl = Num 100, activeMgmt = ''N/A'', execution = ''A'', note_t = ''ok''\<rparr>"

text \<open>A data line whose PnL field is no number, and one whose identifier is none.\<close>

definition bad_pnl_line :: string where
  "bad_pnl_line = ''1,2024-01-01,Scalp: W,2:1,abc,N/A,A,n''"

definition bad_id_document :: string where
  "bad_id_document = CSV_HEADER @ [newline] @ ''abc,2024-01-01,Scalp: W,2:1,100,N/A,A,n''"

text \<open>
  The states the program reaches from a fresh journal by its operations: adding or
  updating a trade through the form, choosing a trade to edit and leaving edit mode,
  deleting, clearing, and importing a document.
\<close>

inductive reachable :: "journal \<Rightarrow> bool" where
  reach_initial: "reachable initial"
| reach_addTrade: "reachable s \<Longrightarrow> reachable (snd (addTrade f today s))"
| reach_loadTradeForEdit: "reachable s \<Longrightarrow> reachable (snd (loadTradeForEdit i s))"
| reach_cancelEdit: "reachable s \<Longrightarrow> reachable (snd (cancelEdit s))"
| reach_deleteTrade: "reachable s \<Longrightarrow> reachable (snd (deleteTrade i ok s))"
| reach_clearAllData: "reachable s \<Longrightarrow> reachable (snd (clearAllData ok s))"
| reach_processCSVData: "reachable s \<Longrightarrow> reachable (snd (processCSVData csvText s))"





text \<open>A finite number and its value.\<close>

fun is_finite :: "jsnum \<Rightarrow> bool" where
  "is_finite (Num r) = True"
| "is_finite _ = False"

fun num_val :: "jsnum \<Rightarrow> rat" where
  "num_val (Num r) = r"
| "num_val _ = 0"



text \<open>
  The loop of \<open>scanLine\<close> told on the rest of the line: \<open>p\<close> is the character before
  the current one, if any. It is the form in which properties of the loop are proved.
\<close>

fun scanRest :: "char option \<Rightarrow> string \<Rightarrow> string \<Rightarrow> bool \<Rightarrow> string list \<Rightarrow> string list" where
  "scanRest p [] cur inq flds = flds @ [unescape_quotes cur]"
| "scanRest p (c # r) cur inq flds =
     (if c = dquote \<and> (p = None \<or> p = Some comma) then scanRest (Some c) r cur True flds
      else if c = dquote \<and> inq \<and> (r = [] \<or> hd r = comma) then scanRest (Some c) r cur False flds
      else if c = comma \<and> \<not> inq then scanRest (Some c) r [] inq (flds @ [unescape_quotes cur])
      else if \<not> (c = dquote \<and> inq \<and> r \<noteq> [] \<and> hd r = dquote)
      then scanRest (Some c) r (cur @ [c]) inq flds
      else scanRest (Some dquote) (tl r) (cur @ [c]) inq flds)"

declare scanRest.simps(2) [simp del]

text \<open>
  Texts that the CSV carries unchanged. A required field must be non-empty, free of
  commas, double quotes and line feeds, and without white space around it. In a note,
  \<open>quote_safe\<close> rules out two double quotes in a row and a double quote between two
  commas; \<open>p\<close> is the character before the text.
\<close>

definition plain_text :: "string \<Rightarrow> bool" where
  "plain_text f \<longleftrightarrow> comma \<notin> set f \<and> dquote \<notin> set f \<and> newline \<notin> set f"

definition required_text :: "string \<Rightarrow> bool" where
  "required_text f \<longleftrightarrow> f \<noteq> [] \<and> plain_text f \<and> js_trim f = f"

fun quote_safe :: "char \<Rightarrow> string \<Rightarrow> bool" where
  "quote_safe p [] = True"
| "quote_safe p (c # r) =
     ((c = dquote \<longrightarrow> (r \<noteq> [] \<longrightarrow> hd r \<noteq> dquote) \<and> (p = comma \<longrightarrow> r = [] \<or> hd r \<noteq> comma))
      \<and> quote_safe c r)"

definition note_text :: "string \<Rightarrow> bool" where
  "note_text n \<longleftrightarrow> newline \<notin> set n \<and> js_trim n = n \<and> quote_safe dquote n"

text \<open>
  A trade that the CSV carries unchanged: its texts are as above, and its two numbers are
  written as texts that \<open>parseInt\<close> and \<open>parseFloat\<close> read back.
\<close>

definition csv_safe :: "trade \<Rightarrow> bool" where
  "csv_safe t \<longleftrightarrow>
     parseInt (numToString (id_t t)) = id_t t
     \<and> required_text (date t) \<and> required_text (tradeSetup t) \<and> required_text (rr t)
     \<and> parseFloat (numToString (pnl t)) = pnl t
     \<and> required_text (activeMgmt t) \<and> required_text (execution t)
     \<and> note_text (note_t t)"

text \<open>A journal whose only trade was entered through the form, so it has a ticker.\<close>

definition ticker_journal :: journal where
  "ticker_journal =
     \<lparr>trades =
        [\<lparr>id_t = Num 1, date = ''2024-03-01'', tradeSetup = ''Scalp: W'', ticker = Some ''BTC'',
          rr = ''2:1'', pnl = Num 100, activeMgmt = ''N/A'', execution = ''A'',
          note_t = ''first''\<rparr>],
      nextId = Num 2, editId = None\<rparr>"

definition ticker_csv :: string where
  "ticker_csv = CSV_HEADER @ [newline] @ ''1,2024-03-01,Scalp: W,2:1,100,N/A,A,first'' @ [newline]"

text \<open>
  A journal of trades that the CSV carries: a note with commas and quotes, a PnL with a
  fraction.
\<close>

definition safe_journal :: journal where
  "safe_journal =
     \<lparr>trades =
        [\<lparr>id_t = Num 4, date = ''2024-03-01'', tradeSetup = ''Scalp: W'', ticker = None,
          rr = ''2:1'', pnl = Num (25 / 2), activeMgmt = ''N/A'', execution = ''A'',
          note_t = ''said '' @ [dquote] @ ''go'' @ [dquote] @ '', then left''\<rparr>,
         \<lparr>id_t = Num 2, date = ''2024-03-02'', tradeSetup = ''Swing: PB'', ticker = None,
          rr = ''1.5:1'', pnl = Num (- 40), activeMgmt = ''3'', execution = ''C'',
          note_t = []\<rparr>],
      nextId = Num 5, editId = None\<rparr>"

text \<open>A journal whose only trade has a comma in its setup and no ticker, and its export.\<close>

definition comma_setup_journal :: journal where
  "comma_setup_journal = \<lparr>trades = [comma_setup_trade], nextId = Num 2, editId = None\<rparr>"

definition comma_setup_csv :: string where
  "comma_setup_csv = CSV_HEADER @ [newline] @ ''1,2024-03-01,Scalp: W,T,2:1,100,N/A,A,ok''
                     @ [newline]"

section \<open>Properties\<close>

subsection \<open>White space\<close>

lemma dropWhile_hd: "dropWhile P xs \<noteq> [] \<Longrightarrow> \<not> P (hd (dropWhile P xs))"
  by (simp add: hd_dropWhile)

lemma dropWhile_last: "dropWhile P xs \<noteq> [] \<Longrightarrow> last (dropWhile P xs) = last xs"
  by (induction xs) (auto split: if_splits)

lemma js_trim_no_outer_ws: "no_outer_ws (js_trim s)"
proof -
  let ?x = "dropWhile is_ws s"
  let ?y = "dropWhile is_ws (rev ?x)"
  show ?thesis
  proof (cases "?y = []")
    case True
    then show ?thesis by (simp add: js_trim_def no_outer_ws_def)
  next
    case False
    then have x: "?x \<noteq> []" by (metis dropWhile.simps(1) rev.simps(1))
    have "\<not> is_ws (hd ?y)" using False by (rule dropWhile_hd)
    moreover have "last ?y = last (rev ?x)" using False by (rule dropWhile_last)
    then have "last ?y = hd ?x" using x by (simp add: last_rev)
    moreover have "\<not> is_ws (hd ?x)" using x by (rule dropWhile_hd)
    ultimately show ?thesis
      using False by (simp add: js_trim_def no_outer_ws_def hd_rev last_rev)
  qed
qed

lemma js_trim_Nil_all_ws: "js_trim s = [] \<Longrightarrow> \<forall>x\<in>set s. is_ws x"
proof -
  assume "js_trim s = []"
  then have "dropWhile is_ws (rev (dropWhile is_ws s)) = []" by (simp add: js_trim_def)
  then have "\<forall>x\<in>set (dropWhile is_ws s). is_ws x" by (simp add: dropWhile_eq_Nil_conv)
  then have "dropWhile is_ws s = []"
    using hd_dropWhile [of is_ws s] hd_in_set [of "dropWhile is_ws s"] by blast
  then show ?thesis by (simp add: dropWhile_eq_Nil_conv)
qed

lemma js_trim_line:
  assumes "y \<noteq> []" "\<not> is_ws (hd y)" "\<not> is_ws (last y)"
  shows "js_trim (y @ [newline]) = y"
proof -
  have nl: "is_ws newline" by (simp add: is_ws_def)
  have a: "dropWhile is_ws (y @ [newline]) = y @ [newline]"
    using assms(1,2) by (cases y) simp_all
  have "dropWhile is_ws (rev y) = rev y"
    using assms(1,3) by (cases "rev y") (simp_all add: last_rev [symmetric] hd_rev)
  then have "dropWhile is_ws (rev (y @ [newline])) = rev y" using nl by simp
  then show ?thesis by (simp add: js_trim_def a)
qed

subsection \<open>Splitting a text into lines\<close>

lemma split_on_not_Nil: "split_on c xs \<noteq> []"
  by (induction xs) (auto split: list.splits)

lemma split_on_sep: "c \<notin> set a \<Longrightarrow> split_on c (a @ c # b) = a # split_on c b"
  by (induction a) (auto split: list.splits)

lemma split_on_snoc: "split_on c (xs @ [c]) = split_on c xs @ [[]]"
  by (induction xs) (auto split: list.splits simp: split_on_not_Nil)

lemma split_on_rows:
  "\<forall>r\<in>set rows. c \<notin> set r \<Longrightarrow> split_on c (concat (map (\<lambda>r. r @ [c]) rows)) = rows @ [[]]"
  by (induction rows) (simp_all add: split_on_sep)

subsection \<open>Numbers as text\<close>

lemma showNat_not_Nil: "showNat n \<noteq> []"
  by (subst showNat.simps) simp

lemma showNat_digits: "c \<in> set (showNat n) \<Longrightarrow> is_digit c"
proof (induction n rule: showNat.induct)
  case (1 n)
  have d: "\<And>k::nat. k < 10 \<Longrightarrow> is_digit (char_of (48 + k))"
  proof -
    fix k :: nat assume "k < 10"
    then have "(48 + k) mod 256 = 48 + k" by simp
    then show "is_digit (char_of (48 + k))" using \<open>k < 10\<close> by (simp add: is_digit_def)
  qed
  show ?case
  proof (cases "n < 10")
    case True
    then show ?thesis using "1.prems" d by (simp add: showNat.simps [of n])
  next
    case False
    then show ?thesis
      using "1.prems" "1.IH" d [of "n mod 10"] by (auto simp: showNat.simps [of n])
  qed
qed

lemma is_digit_plain: "is_digit c \<Longrightarrow> c \<noteq> comma \<and> c \<noteq> dquote \<and> c \<noteq> newline"
  by (auto simp: is_digit_def)

lemma showPos_chars:
  assumes "c \<in> set (showPos r)"
  shows "is_digit c \<or> c \<in> {CHR ''.'', CHR ''e'', CHR ''+'', CHR ''-''}"
proof -
  have z: "is_digit (CHR ''0'')" by (simp add: is_digit_def)
  show ?thesis
    using assms z showNat_digits
    by (auto simp: showPos_def Let_def split: prod.splits if_splits
        dest!: in_set_takeD in_set_dropD)
qed

lemma showPos_not_Nil: "showPos r \<noteq> []"
  using showNat_not_Nil by (auto simp: showPos_def Let_def split: prod.splits)

lemma numToString_not_Nil: "numToString x \<noteq> []"
  by (cases x) (simp_all add: showPos_not_Nil)

lemma numToString_plain: "plain_text (numToString x)"
proof -
  have "\<And>c r. c \<in> set (showPos r) \<Longrightarrow> c \<noteq> comma \<and> c \<noteq> dquote \<and> c \<noteq> newline"
    using showPos_chars is_digit_plain by fastforce
  then show ?thesis by (cases x) (auto simp: plain_text_def)
qed

lemma digit_value_char: "k < 10 \<Longrightarrow> digit_value (char_of (48 + k)) = k"
proof -
  assume k: "k < 10"
  then have "(48 + k) mod 256 = 48 + k" by simp
  then show ?thesis using k by (simp add: digit_value_def Let_def)
qed

lemma nat_of_digits_snoc:
  "nat_of_digits b (ds @ [c]) = nat_of_digits b ds * b + digit_value c"
  by (simp add: nat_of_digits_def)

lemma nat_of_digits_showNat: "nat_of_digits 10 (showNat m) = m"
proof (induction m rule: showNat.induct)
  case (1 n)
  show ?case
  proof (cases "n < 10")
    case True
    then show ?thesis
      by (simp add: showNat.simps [of n] nat_of_digits_def digit_value_char)
  next
    case False
    then have "nat_of_digits 10 (showNat n) = (n div 10) * 10 + n mod 10"
      using "1.IH" by (simp add: showNat.simps [of n] nat_of_digits_snoc digit_value_char)
    then show ?thesis by simp
  qed
qed

lemma char_of_48: "char_of (48 :: nat) = CHR ''0''"
  by code_simp

lemma showNat_times_10: "0 < x \<Longrightarrow> showNat (x * 10) = showNat x @ ''0''"
  by (subst showNat.simps) (simp add: char_of_48)

lemma showNat_shift: "0 < s \<Longrightarrow> showNat (s * 10 ^ z) = showNat s @ replicate z (CHR ''0'')"
proof (induction z)
  case 0
  show ?case by simp
next
  case (Suc z)
  have "showNat (s * 10 ^ Suc z) = showNat ((s * 10 ^ z) * 10)" by (simp add: mult_ac)
  also have "\<dots> = showNat (s * 10 ^ z) @ ''0''" using Suc.prems by (simp add: showNat_times_10)
  finally show ?case using Suc by (simp add: replicate_append_same)
qed

lemma strip_zeros_eq: "0 < m \<Longrightarrow> strip_zeros m = (s, z) \<Longrightarrow> m = s * 10 ^ z \<and> 0 < s"
proof (induction m arbitrary: s z rule: strip_zeros.induct)
  case (1 m)
  show ?case
  proof (cases "m mod 10 = 0")
    case False
    then show ?thesis using "1.prems" by (simp add: strip_zeros.simps [of m])
  next
    case True
    obtain s' z' where sz: "strip_zeros (m div 10) = (s', z')" by (cases "strip_zeros (m div 10)")
    have pos: "0 < m div 10" using "1.prems"(1) True by (simp add: div_greater_zero_iff mod_eq_0_iff_dvd dvd_imp_le)
    have "m div 10 = s' * 10 ^ z' \<and> 0 < s'" using "1.IH" [OF _ pos sz] "1.prems"(1) True by simp
    moreover have "s = s'" "z = Suc z'"
      using "1.prems" True sz by (simp_all add: strip_zeros.simps [of m])
    moreover have "m = (m div 10) * 10" using True by (simp add: mod_eq_0_iff_dvd)
    ultimately show ?thesis by (metis mult.assoc power_Suc2)
  qed
qed

lemma length_showNat: "m < 10 ^ d \<Longrightarrow> 0 < d \<Longrightarrow> length (showNat m) \<le> d"
proof (induction m arbitrary: d rule: showNat.induct)
  case (1 n)
  show ?case
  proof (cases "n < 10")
    case True
    then show ?thesis using "1.prems" by (simp add: showNat.simps [of n])
  next
    case False
    obtain d' where d: "d = Suc d'" using "1.prems"(2) by (cases d) auto
    have "n div 10 < 10 ^ d'" using "1.prems"(1) d by (simp add: less_mult_imp_div_less mult.commute)
    moreover have "0 < d'" using False "1.prems"(1) d by (cases d') auto
    ultimately have "length (showNat (n div 10)) \<le> d'" using "1.IH" False by simp
    then show ?thesis using False d by (simp add: showNat.simps [of n])
  qed
qed

lemma showPos_of_nat:
  assumes "0 < m" "m < 10 ^ 21"
  shows "showPos (of_nat m) = showNat m"
proof -
  have q: "quotient_of (of_nat m :: rat) = (int m, 1)"
    using quotient_of_int [of "int m"] by simp
  have j: "dec_scale (nat (snd (quotient_of (of_nat m :: rat)))) (of_nat m) 0 = 0"
    by (simp add: q)
  obtain s z where sz: "strip_zeros m = (s, z)" by (cases "strip_zeros m")
  have m: "m = s * 10 ^ z" and s: "0 < s" using strip_zeros_eq [OF assms(1) sz] by simp_all
  have sh: "showNat m = showNat s @ replicate z (CHR ''0'')"
    using showNat_shift [OF s, of z] m by simp
  have "length (showNat m) \<le> 21" using assms(2) by (simp add: length_showNat)
  then have len: "length (showNat s) + z \<le> 21" using sh by simp
  show ?thesis
    unfolding showPos_def j using sz len sh by (simp add: Let_def)
qed

lemma is_digit_others:
  "is_digit c \<Longrightarrow> \<not> is_ws c \<and> c \<noteq> CHR ''-'' \<and> c \<noteq> CHR ''+'' \<and> c \<noteq> CHR ''x''
     \<and> c \<noteq> CHR ''X'' \<and> c \<noteq> CHR ''I'' \<and> c \<noteq> CHR ''.''"
  by (auto simp: is_digit_def is_ws_def)

lemma parseInt_digits:
  assumes "u \<noteq> []" "\<forall>c\<in>set u. is_digit c"
  shows "parseInt u = Num (of_nat (nat_of_digits 10 u))"
    and "parseInt (CHR ''-'' # u) = Num (- of_nat (nat_of_digits 10 u))"
proof -
  obtain c cs where u: "u = c # cs" using assms(1) by (cases u) auto
  have c: "\<not> is_ws c" "c \<noteq> CHR ''-''" "c \<noteq> CHR ''+''"
    using assms(2) is_digit_others [of c] by (simp_all add: u)
  have nohex: "take 2 u \<noteq> ''0x''" "take 2 u \<noteq> ''0X''"
  proof -
    have "CHR ''x'' \<notin> set u" "CHR ''X'' \<notin> set u" using assms(2) is_digit_others by blast+
    then have "CHR ''x'' \<notin> set (take 2 u)" "CHR ''X'' \<notin> set (take 2 u)"
      by (auto dest: in_set_takeD)
    then show "take 2 u \<noteq> ''0x''" "take 2 u \<noteq> ''0X''" by auto
  qed
  have all: "takeWhile is_digit u = u" using assms(2) by (simp add: takeWhile_eq_all_conv)
  have tw: "takeWhile is_digit u \<noteq> []"
    "nat_of_digits 10 (takeWhile is_digit u) = nat_of_digits 10 u"
    using assms(1) by (simp_all only: all not_False_eq_True)
  have dw: "dropWhile is_ws u = u" "take_sign u = (1, u)"
    using c by (simp_all add: u)
  have dm: "dropWhile is_ws (CHR ''-'' # u) = CHR ''-'' # u" "take_sign (CHR ''-'' # u) = (- 1, u)"
    by (simp_all add: is_ws_def)
  show "parseInt u = Num (of_nat (nat_of_digits 10 u))"
    unfolding parseInt_def dw using nohex tw by (simp add: Let_def)
  show "parseInt (CHR ''-'' # u) = Num (- of_nat (nat_of_digits 10 u))"
    unfolding parseInt_def dm using nohex tw by (simp add: Let_def)
qed

lemma parseFloat_digits:
  assumes "u \<noteq> []" "\<forall>c\<in>set u. is_digit c"
  shows "parseFloat u = Num (of_nat (nat_of_digits 10 u))"
    and "parseFloat (CHR ''-'' # u) = Num (- of_nat (nat_of_digits 10 u))"
proof -
  obtain c cs where u: "u = c # cs" using assms(1) by (cases u) auto
  have c: "\<not> is_ws c" "c \<noteq> CHR ''-''" "c \<noteq> CHR ''+''" "c \<noteq> CHR ''I''"
    using assms(2) is_digit_others [of c] by (simp_all add: u)
  have noinf: "\<not> startsWith u ''Infinity''"
    using c(4) by (auto simp: startsWith_def u)
  have all: "takeWhile is_digit u = u" "dropWhile is_digit u = []"
    using assms(2) by (simp_all add: takeWhile_eq_all_conv)
  have tw: "takeWhile is_digit u \<noteq> []"
    "nat_of_digits 10 (takeWhile is_digit u) = nat_of_digits 10 u"
    "exponent_part (dropWhile is_digit u) = 0"
    using assms(1) by (simp_all only: all exponent_part_def list.case not_False_eq_True)
  have dw: "dropWhile is_ws u = u" "take_sign u = (1, u)"
    using c by (simp_all add: u)
  have dm: "dropWhile is_ws (CHR ''-'' # u) = CHR ''-'' # u" "take_sign (CHR ''-'' # u) = (- 1, u)"
    by (simp_all add: is_ws_def)
  have z: "nat_of_digits 10 [] = 0" by (simp add: nat_of_digits_def)
  show "parseFloat u = Num (of_nat (nat_of_digits 10 u))"
    unfolding parseFloat_def dw using noinf tw z assms(2) by (simp add: Let_def pow10_def)
  show "parseFloat (CHR ''-'' # u) = Num (- of_nat (nat_of_digits 10 u))"
    unfolding parseFloat_def dm using noinf tw z assms(2) by (simp add: Let_def pow10_def)
qed

lemma integer_text_round_trip:
  assumes "\<bar>n\<bar> < (10 :: int) ^ 21"
  shows "parseInt (numToString (Num (of_int n))) = Num (of_int n)"
    and "parseFloat (numToString (Num (of_int n))) = Num (of_int n)"
proof -
  have zero: "parseInt ''0'' = Num 0" "parseFloat ''0'' = Num 0" by code_simp+
  have both: "parseInt (numToString (Num (of_int n))) = Num (of_int n)
              \<and> parseFloat (numToString (Num (of_int n))) = Num (of_int n)"
  proof (cases "n = 0")
    case True
    then show ?thesis using zero by simp
  next
    case False
    define m where "m = nat \<bar>n\<bar>"
    have m: "0 < m" "m < 10 ^ 21" using False assms by (simp_all add: m_def nat_less_iff)
    have sp: "showPos (of_nat m) = showNat m" using m by (rule showPos_of_nat)
    have d: "showNat m \<noteq> []" "\<forall>c\<in>set (showNat m). is_digit c"
      using showNat_not_Nil showNat_digits by auto
    have v: "nat_of_digits 10 (showNat m) = m" by (rule nat_of_digits_showNat)
    show ?thesis
    proof (cases "0 < n")
      case True
      then have n: "(of_int n :: rat) = of_nat m" by (simp add: m_def)
      have "numToString (Num (of_int n)) = showNat m"
        using m(1) sp by (simp add: n)
      then show ?thesis
        using parseInt_digits(1) [OF d] parseFloat_digits(1) [OF d] v n by simp
    next
      case neg: False
      then have n: "(of_int n :: rat) = - of_nat m" using False by (simp add: m_def)
      have "numToString (Num (of_int n)) = CHR ''-'' # showNat m"
        using m(1) sp by (simp add: n)
      then show ?thesis
        using parseInt_digits(2) [OF d] parseFloat_digits(2) [OF d] v n by simp
    qed
  qed
  show "parseInt (numToString (Num (of_int n))) = Num (of_int n)"
    and "parseFloat (numToString (Num (of_int n))) = Num (of_int n)"
    using both by simp_all
qed


subsection \<open>Escaping\<close>

lemma unescape_quotes_Cons: "c \<noteq> dquote \<Longrightarrow> unescape_quotes (c # xs) = c # unescape_quotes xs"
  by (cases xs) simp_all

lemma unescape_double_quotes: "unescape_quotes (double_quotes f) = f"
  by (induction f) (simp_all add: unescape_quotes_Cons)

lemma length_double_quotes: "length f \<le> length (double_quotes f)"
  by (induction f) simp_all

lemma escapeCSVField_quoted:
  "(escapeCSVField f = dquote # double_quotes f @ [dquote]) = needs_quoting f"
proof (cases "needs_quoting f")
  case True
  then show ?thesis by (simp add: escapeCSVField_def)
next
  case False
  have "length f < length (dquote # double_quotes f @ [dquote])"
    using length_double_quotes [of f] by simp
  then have "f \<noteq> dquote # double_quotes f @ [dquote]" by (metis less_irrefl)
  with False show ?thesis by (simp add: escapeCSVField_def)
qed

lemma escapeCSVField_verbatim: "(escapeCSVField f = f) = (\<not> needs_quoting f)"
proof (cases "needs_quoting f")
  case True
  have "length f < length (dquote # double_quotes f @ [dquote])"
    using length_double_quotes [of f] by simp
  then have "dquote # double_quotes f @ [dquote] \<noteq> f" by (metis less_irrefl)
  with True show ?thesis by (simp add: escapeCSVField_def)
next
  case False
  then show ?thesis by (simp add: escapeCSVField_def)
qed

lemma unescape_quotes_id: "dquote \<notin> set f \<Longrightarrow> unescape_quotes f = f"
  by (induction f) (auto simp: unescape_quotes_Cons)

lemma unescape_quote_safe: "quote_safe p n \<Longrightarrow> unescape_quotes n = n"
  by (induction n arbitrary: p rule: unescape_quotes.induct) auto

lemma double_quotes_concat:
  "double_quotes f = concat (map (\<lambda>c. if c = dquote then [dquote, dquote] else [c]) f)"
  by (induction f) simp_all

text \<open>
  Claim C5, amended. In the row of a trade, the note (field 7) and, in the latest revision,
  the active-management grade (field 5) are the text between two double quotes, with each
  double quote of the text written twice, if the text holds a comma, a double quote or a
  line feed, and the text itself otherwise; so the field is the text as it is if and only if
  the text holds none of the three characters. In the earlier revisions the note is
  written in the same way and the active-management grade as it is. The row has eight
  fields, and the other six (id, date, trade setup, risk-reward, PnL, execution) are written
  as they are in every revision, whatever they hold.
\<close>

theorem escaping_covers_free_text_only:
  "rowFields t ! 7
     = (if comma \<in> set (note_t t) \<or> dquote \<in> set (note_t t) \<or> newline \<in> set (note_t t)
        then dquote # concat (map (\<lambda>c. if c = dquote then [dquote, dquote] else [c]) (note_t t))
             @ [dquote]
        else note_t t)
   \<and> (rowFields t ! 7 = note_t t)
       = (comma \<notin> set (note_t t) \<and> dquote \<notin> set (note_t t) \<and> newline \<notin> set (note_t t))
   \<and> rowFields t ! 5
     = (if comma \<in> set (activeMgmt t) \<or> dquote \<in> set (activeMgmt t)
           \<or> newline \<in> set (activeMgmt t)
        then dquote # concat (map (\<lambda>c. if c = dquote then [dquote, dquote] else [c])
                                  (activeMgmt t))
             @ [dquote]
        else activeMgmt t)
   \<and> (rowFields t ! 5 = activeMgmt t)
       = (comma \<notin> set (activeMgmt t) \<and> dquote \<notin> set (activeMgmt t)
          \<and> newline \<notin> set (activeMgmt t))
   \<and> rowFields_v1 t ! 7 = rowFields t ! 7
   \<and> rowFields_v1 t ! 5 = activeMgmt t
   \<and> length (rowFields t) = 8 \<and> length (rowFields_v1 t) = 8
   \<and> rowFields t ! 0 = numToString (id_t t) \<and> rowFields_v1 t ! 0 = numToString (id_t t)
   \<and> rowFields t ! 1 = date t \<and> rowFields_v1 t ! 1 = date t
   \<and> rowFields t ! 2 = tradeSetup t \<and> rowFields_v1 t ! 2 = tradeSetup t
   \<and> rowFields t ! 3 = rr t \<and> rowFields_v1 t ! 3 = rr t
   \<and> rowFields t ! 4 = numToString (pnl t) \<and> rowFields_v1 t ! 4 = numToString (pnl t)
   \<and> rowFields t ! 6 = execution t \<and> rowFields_v1 t ! 6 = execution t"
proof -
  have e: "\<And>f. escapeCSVField f
             = (if comma \<in> set f \<or> dquote \<in> set f \<or> newline \<in> set f
                then dquote # concat (map (\<lambda>c. if c = dquote then [dquote, dquote] else [c]) f)
                     @ [dquote]
                else f)"
    by (auto simp: escapeCSVField_def needs_quoting_def double_quotes_concat)
  have v: "\<And>f. (escapeCSVField f = f) = (comma \<notin> set f \<and> dquote \<notin> set f \<and> newline \<notin> set f)"
    using escapeCSVField_verbatim by (auto simp: needs_quoting_def)
  have n7: "rowFields t ! 7 = escapeCSVField (note_t t)"
    and n5: "rowFields t ! 5 = escapeCSVField (activeMgmt t)"
    by (simp_all add: rowFields_def)
  show ?thesis
    unfolding n7 n5 v
    using e [of "note_t t"] e [of "activeMgmt t"]
    by (simp add: rowFields_def rowFields_v1_def)
qed

text \<open>
  Claim C5, as stated, fails: the trade setup of this trade holds a comma and is written
  without quotes, in every revision.
\<close>

theorem comma_in_setup_is_not_quoted:
  "comma \<in> set (tradeSetup comma_setup_trade)
   \<and> rowFields comma_setup_trade ! 2 = ''Scalp: W,T''
   \<and> rowFields comma_setup_trade ! 2
       \<noteq> dquote # double_quotes (tradeSetup comma_setup_trade) @ [dquote]
   \<and> rowFields_v1 comma_setup_trade ! 2 = ''Scalp: W,T''"
  by code_simp

subsection \<open>The line scanner\<close>

lemma scanLine_scanRest:
  "i \<le> length line \<Longrightarrow>
   scanLine line i cur inq flds
     = scanRest (if i = 0 then None else Some (line ! (i - 1))) (drop i line) cur inq flds"
proof (induction "length line - i" arbitrary: i cur inq flds rule: less_induct)
  case less
  show ?case
  proof (cases "i < length line")
    case False
    then have "drop i line = []" by simp
    then show ?thesis using False by (simp add: scanLine.simps [of line i])
  next
    case True
    define p where "p = (if i = 0 then None else Some (line ! (i - 1)))"
    define c where "c = line ! i"
    define r where "r = drop (Suc i) line"
    have d: "drop i line = c # r"
      using True by (simp add: Cons_nth_drop_Suc c_def r_def)
    have A: "(i = 0 \<or> char_at line (i - 1) = Some comma) = (p = None \<or> p = Some comma)"
      using True by (auto simp: char_at_def p_def)
    have r_Nil: "(i = length line - 1) = (r = [])"
      using True by (auto simp: r_def)
    have nxt: "\<And>x. (char_at line (i + 1) = Some x) = (r \<noteq> [] \<and> hd r = x)"
      by (auto simp: char_at_def hd_drop_conv_nth r_def)
    have B: "(i = length line - 1 \<or> r \<noteq> [] \<and> hd r = comma) = (r = [] \<or> hd r = comma)"
      using r_Nil by auto
    have unfoldL: "scanLine line i cur inq flds =
        (if c = dquote \<and> (p = None \<or> p = Some comma) then scanLine line (i + 1) cur True flds
         else if c = dquote \<and> inq \<and> (r = [] \<or> hd r = comma)
         then scanLine line (i + 1) cur False flds
         else if c = comma \<and> \<not> inq
         then scanLine line (i + 1) [] inq (flds @ [unescape_quotes cur])
         else if \<not> (c = dquote \<and> inq \<and> r \<noteq> [] \<and> hd r = dquote)
         then scanLine line (i + 1) (cur @ [c]) inq flds
         else scanLine line (i + 2) (cur @ [c]) inq flds)"
      apply (subst scanLine.simps)
      apply (simp only: True if_True Let_def A nxt B c_def [symmetric])
      done
    have step1: "\<And>cur' inq' flds'. scanLine line (i + 1) cur' inq' flds'
                   = scanRest (Some c) r cur' inq' flds'"
    proof -
      fix cur' inq' flds'
      have "length line - (i + 1) < length line - i" and "i + 1 \<le> length line"
        using True by simp_all
      from less.hyps [OF this]
      show "scanLine line (i + 1) cur' inq' flds' = scanRest (Some c) r cur' inq' flds'"
        by (simp add: c_def r_def)
    qed
    have step2: "\<And>cur' inq' flds'. r \<noteq> [] \<Longrightarrow> hd r = dquote \<Longrightarrow>
                   scanLine line (i + 2) cur' inq' flds'
                   = scanRest (Some dquote) (tl r) cur' inq' flds'"
    proof -
      fix cur' inq' flds'
      assume r: "r \<noteq> []" and h: "hd r = dquote"
      have b: "i + 2 \<le> length line" using r by (simp add: r_def)
      have "length line - (i + 2) < length line - i" using True by simp
      from less.hyps [OF this b]
      have "scanLine line (i + 2) cur' inq' flds'
              = scanRest (Some (line ! (i + 1))) (drop (i + 2) line) cur' inq' flds'"
        by simp
      moreover have "line ! (i + 1) = dquote"
        using r h by (simp add: r_def hd_drop_conv_nth)
      moreover have "tl r = drop (i + 2) line"
        by (simp add: r_def drop_Suc tl_drop)
      ultimately show "scanLine line (i + 2) cur' inq' flds'
                        = scanRest (Some dquote) (tl r) cur' inq' flds'"
        by simp
    qed
    have step1': "\<And>cur' inq' flds'. scanLine line (Suc i) cur' inq' flds'
                   = scanRest (Some c) r cur' inq' flds'"
      using step1 by simp
    have step2': "\<And>cur' inq' flds'. r \<noteq> [] \<Longrightarrow> hd r = dquote \<Longrightarrow>
                   scanLine line (Suc (Suc i)) cur' inq' flds'
                   = scanRest (Some dquote) (tl r) cur' inq' flds'"
      using step2 by simp
    show ?thesis
      unfolding unfoldL p_def [symmetric] d
      by (auto simp add: scanRest.simps(2) step1' step2')
  qed
qed

lemma splitCSVLine_scanRest: "splitCSVLine line = scanRest None line [] False []"
  using scanLine_scanRest [of 0 line "[]" False "[]"] by (simp add: splitCSVLine_def)

lemma scan_plain:
  "comma \<notin> set f \<Longrightarrow> dquote \<notin> set f \<Longrightarrow>
   scanRest p (f @ comma # rest) cur False flds
     = scanRest (Some comma) rest [] False (flds @ [unescape_quotes (cur @ f)])"
  by (induction f arbitrary: p cur) (auto simp: scanRest.simps(2))

lemma scan_plain_last:
  "comma \<notin> set f \<Longrightarrow> dquote \<notin> set f \<Longrightarrow>
   scanRest p f cur False flds = flds @ [unescape_quotes (cur @ f)]"
  by (induction f arbitrary: p cur) (auto simp: scanRest.simps(2))

lemma scan_quoted:
  "quote_safe p n \<Longrightarrow>
   scanRest (Some p) (double_quotes n @ [dquote]) cur True flds
     = flds @ [unescape_quotes (cur @ n)]"
proof (induction n arbitrary: p cur)
  case Nil
  show ?case by (simp add: scanRest.simps(2))
next
  case (Cons c n)
  have safe: "quote_safe c n" using Cons.prems by simp
  note IH = Cons.IH [OF safe]
  show ?case
  proof (cases "c = dquote")
    case False
    then show ?thesis using IH [of "cur @ [c]"] by (simp add: scanRest.simps(2))
  next
    case True
    have nn: "n \<noteq> [] \<Longrightarrow> hd n \<noteq> dquote" using Cons.prems True by simp
    show ?thesis
    proof (cases "p = comma")
      case False
      then show ?thesis
        using True IH [of "cur @ [dquote]"] by (simp add: scanRest.simps(2))
    next
      case pc: True
      show ?thesis
      proof (cases n)
        case Nil
        then show ?thesis using True pc by (simp add: scanRest.simps(2))
      next
        case (Cons d n')
        have d: "d \<noteq> dquote" "d \<noteq> comma" using Cons.prems True pc nn Cons by auto
        have "scanRest (Some p) (double_quotes (c # n) @ [dquote]) cur True flds
                = scanRest (Some dquote) (double_quotes n @ [dquote]) (cur @ [dquote]) True flds"
          using True pc d Cons by (simp add: scanRest.simps(2))
        then show ?thesis using True IH [of "cur @ [dquote]"] by simp
      qed
    qed
  qed
qed



subsection \<open>Trimmed fields\<close>



subsection \<open>Short documents\<close>

text \<open>
  Claim C10. A document that has fewer than two lines once its surrounding white space is
  trimmed is rejected as empty, whatever its first line is, so before the header is looked
  at: nothing is imported, the journal is unchanged, and the answer is never a success with
  zero imported and zero skipped rows. The header line alone is such a document.
\<close>

theorem short_document_is_empty_file:
  assumes "length (split_on newline (js_trim csvText)) < 2"
  shows "processCSVData csvText s = (EmptyFile, s)
         \<and> fst (processCSVData csvText s) \<noteq> InvalidHeader
         \<and> fst (processCSVData csvText s) \<noteq> Imported 0 0
         \<and> processCSVData CSV_HEADER s = (EmptyFile, s)"
proof -
  have "length (split_on newline (js_trim CSV_HEADER)) < 2"
    by code_simp
  then have "processCSVData CSV_HEADER s = (EmptyFile, s)"
    by (simp add: processCSVData_def)
  moreover have "processCSVData csvText s = (EmptyFile, s)"
    using assms by (simp add: processCSVData_def)
  ultimately show ?thesis by simp
qed

theorem short_document_is_empty_file_witness:
  "length (split_on newline (js_trim (CSV_HEADER @ [newline]))) < 2
   \<and> processCSVData (CSV_HEADER @ [newline]) initial = (EmptyFile, initial)"
proof -
  have h: "length (split_on newline (js_trim (CSV_HEADER @ [newline]))) < 2"
    by code_simp
  show ?thesis
    using h short_document_is_empty_file [OF h, of initial] by simp
qed

subsection \<open>The header check\<close>

text \<open>
  Claim C7, as stated, fails. The first line of this document is the header followed by a
  carriage return, so it is not the header character for character; the import accepts it
  and adds the record.
\<close>

theorem header_with_carriage_return_is_accepted:
  "hd (split_on newline crlf_document) \<noteq> CSV_HEADER
   \<and> processCSVData crlf_document initial
       = (Imported 1 0,
          \<lparr>trades = [\<lparr>id_t = Num 7, date = ''2024-01-01'', tradeSetup = ''Scalp: W'',
                       ticker = None, rr = ''2:1'', pnl = Num 5, activeMgmt = ''N/A'',
                       execution = ''A'', note_t = ''n''\<rparr>],
           nextId = Num 8, editId = None\<rparr>)"
  by code_simp

text \<open>
  Claim C7, amended. For a document of at least two lines (after the text is trimmed), the
  import reports the header error, with nothing imported and the journal unchanged, exactly
  when the first line with its surrounding white space trimmed differs from the header; a
  first line that is the header once trimmed is never rejected by this check, and no such
  document is reported empty.
\<close>

theorem header_is_compared_after_trim:
  assumes "2 \<le> length (split_on newline (js_trim csvText))"
  shows "(processCSVData csvText s = (InvalidHeader, s))
           = (js_trim (hd (split_on newline (js_trim csvText))) \<noteq> CSV_HEADER)
         \<and> (fst (processCSVData csvText s) = InvalidHeader)
             = (js_trim (hd (split_on newline (js_trim csvText))) \<noteq> CSV_HEADER)
         \<and> fst (processCSVData csvText s) \<noteq> EmptyFile"
  using assms by (auto simp: processCSVData_def Let_def split: prod.splits)

theorem header_is_compared_after_trim_witness:
  "2 \<le> length (split_on newline (js_trim semicolon_document))
   \<and> js_trim (hd (split_on newline (js_trim semicolon_document))) \<noteq> CSV_HEADER
   \<and> processCSVData semicolon_document initial = (InvalidHeader, initial)"
proof -
  have h: "2 \<le> length (split_on newline (js_trim semicolon_document))"
    by code_simp
  have n: "js_trim (hd (split_on newline (js_trim semicolon_document))) \<noteq> CSV_HEADER"
    by code_simp
  show ?thesis
    using h n header_is_compared_after_trim [OF h, of initial] by simp
qed

subsection \<open>Rows with unreadable numbers\<close>

text \<open>A line of eight fields with an empty required field is skipped.\<close>

lemma empty_required_field_is_skipped:
  assumes "length (splitCSVLine line) = 8"
    and "js_trim line \<noteq> []"
    and "j < 7" and "splitCSVLine line ! j = []"
  shows "importLine line (s, i, k) = (s, i, k + 1)"
proof -
  have "j \<in> {0, 1, 2, 3, 4, 5, 6}" using assms(3) by auto
  then have "parseCSVLine line = None"
    using assms(1,4) by (auto simp: parseCSVLine_def Let_def)
  then show ?thesis using assms(2) by (simp add: importLine_def)
qed

text \<open>
  Claim C3 at a failing input. The line has eight non-empty fields and a PnL field that
  is no number; \<open>parseCSVLine\<close> returns a record with PnL \<open>NaN\<close>, and the import adds it
  and counts it as imported, not skipped. The form's check refuses the same PnL text.
\<close>

theorem unparsed_pnl_is_imported:
  "length (splitCSVLine bad_pnl_line) = 8
   \<and> parseFloat (splitCSVLine bad_pnl_line ! 4) = NaN
   \<and> processCSVData (CSV_HEADER @ [newline] @ bad_pnl_line) initial
       = (Imported 1 0,
          \<lparr>trades = [\<lparr>id_t = Num 1, date = ''2024-01-01'', tradeSetup = ''Scalp: W'',
                       ticker = None, rr = ''2:1'', pnl = NaN, activeMgmt = ''N/A'',
                       execution = ''A'', note_t = ''n''\<rparr>],
           nextId = Num 2, editId = None\<rparr>)
   \<and> validateFormData \<lparr>tradeSetup_in = ''Scalp: W'', ticker_in = ''BTC'', rr_in = ''2:1'',
                         pnl_in = ''abc'', activeMgmt_in = ''N/A'', execution_in = ''A'',
                         note_in = ''n''\<rparr> = Some PnlNotNumber"
  by code_simp

subsection \<open>The counter\<close>

lemma findIndex_Some: "findIndex P xs = Some i \<Longrightarrow> i < length xs \<and> P (xs ! i)"
  by (induction xs arbitrary: i) (auto split: if_splits)

lemma findIndex_None: "findIndex P xs = None \<Longrightarrow> \<forall>x\<in>set xs. \<not> P x"
  by (induction xs) (auto split: if_splits)

lemma js_seq_eq: "js_seq a b \<Longrightarrow> a = b"
  by (simp add: js_seq_def)











text \<open>
  Claim C4 at a failing input. Importing a line whose identifier is no number into the
  fresh journal stores a record with id \<open>NaN\<close> and leaves the counter at 1, which is not
  greater than that id.
\<close>

theorem nan_id_breaks_counter_invariant:
  "reachable (snd (processCSVData bad_id_document initial))
   \<and> processCSVData bad_id_document initial
       = (Imported 1 0,
          \<lparr>trades = [\<lparr>id_t = NaN, date = ''2024-01-01'', tradeSetup = ''Scalp: W'',
                       ticker = None, rr = ''2:1'', pnl = Num 100, activeMgmt = ''N/A'',
                       execution = ''A'', note_t = ''n''\<rparr>],
           nextId = Num 1, editId = None\<rparr>)
   \<and> \<not> js_gt (Num 1) NaN"
proof -
  have "reachable (snd (processCSVData bad_id_document initial))"
    by (rule reach_processCSVData [OF reach_initial])
  moreover have "processCSVData bad_id_document initial
       = (Imported 1 0,
          \<lparr>trades = [\<lparr>id_t = NaN, date = ''2024-01-01'', tradeSetup = ''Scalp: W'',
                       ticker = None, rr = ''2:1'', pnl = Num 100, activeMgmt = ''N/A'',
                       execution = ''A'', note_t = ''n''\<rparr>],
           nextId = Num 1, editId = None\<rparr>)"
    by code_simp
  moreover have "\<not> js_gt (Num 1) NaN" by (simp add: js_gt_def)
  ultimately show ?thesis by simp
qed



subsection \<open>Update\<close>

text \<open>
  Claim C8. In edit mode, with a form that passes validation: if no trade has the edited
  id, the operation reports that and the journal is unchanged; otherwise the first trade with
  that id keeps its id and its date and takes every other field from the form, all other
  trades and the counter are as before.
\<close>

theorem update_keeps_id_and_date:
  assumes "editId s = Some eid"
    and "validateRRInput f"
    and "validateFormData (getFormData f) = None"
  shows "case findIndex (\<lambda>t. js_seq (id_t t) eid) (trades s) of
           None \<Rightarrow>
             (\<forall>t\<in>set (trades s). \<not> js_seq (id_t t) eid)
             \<and> addTrade f today s = (UpdateNotFound, s)
         | Some i \<Rightarrow>
             i < length (trades s)
             \<and> js_seq (id_t (trades s ! i)) eid
             \<and> fst (addTrade f today s) = Updated eid
             \<and> nextId (snd (addTrade f today s)) = nextId s
             \<and> length (trades (snd (addTrade f today s))) = length (trades s)
             \<and> (\<forall>j<length (trades s). j \<noteq> i \<longrightarrow>
                   trades (snd (addTrade f today s)) ! j = trades s ! j)
             \<and> trades (snd (addTrade f today s)) ! i
                 = \<lparr>id_t = id_t (trades s ! i), date = date (trades s ! i),
                    tradeSetup = tradeSetup_in f, ticker = Some (js_trim (ticker_in f)),
                    rr = js_trim (rr_in f), pnl = parseFloat (pnl_in f),
                    activeMgmt = js_trim (activeMgmt_in f), execution = execution_in f,
                    note_t = js_trim (note_in f)\<rparr>"
proof (cases "findIndex (\<lambda>t. js_seq (id_t t) eid) (trades s)")
  case None
  then show ?thesis
    using assms findIndex_None [OF None] by (simp add: addTrade_def)
next
  case (Some i)
  have i: "i < length (trades s)" and m: "js_seq (id_t (trades s ! i)) eid"
    using findIndex_Some [OF Some] by simp_all
  have e: "id_t (trades s ! i) = eid" using m by (rule js_seq_eq)
  show ?thesis
    using assms Some i m e
    by (simp add: addTrade_def tradeOfForm_def getFormData_def)
qed

theorem update_keeps_id_and_date_witness:
  "editId two_trades = Some (Num 2) \<and> validateRRInput filled_form
   \<and> validateFormData (getFormData filled_form) = None
   \<and> addTrade filled_form ''2024-06-01'' two_trades
       = (Updated (Num 2),
          \<lparr>trades =
             [\<lparr>id_t = Num 1, date = ''2024-03-01'', tradeSetup = ''Scalp: W'',
               ticker = Some ''BTC'', rr = ''2:1'', pnl = Num 100, activeMgmt = ''N/A'',
               execution = ''A'', note_t = []\<rparr>,
              \<lparr>id_t = Num 2, date = ''2024-03-02'', tradeSetup = ''Scalp: T'',
               ticker = Some ''SOL'', rr = ''1.5:1'', pnl = Num (151 / 2), activeMgmt = ''5'',
               execution = ''A'', note_t = ''fixed''\<rparr>],
           nextId = Num 3, editId = None\<rparr>)"
proof -
  have a: "editId two_trades = Some (Num 2)" by code_simp
  have b: "validateRRInput filled_form" by code_simp
  have c: "validateFormData (getFormData filled_form) = None" by code_simp
  have d: "addTrade filled_form ''2024-06-01'' two_trades
       = (Updated (Num 2),
          \<lparr>trades =
             [\<lparr>id_t = Num 1, date = ''2024-03-01'', tradeSetup = ''Scalp: W'',
               ticker = Some ''BTC'', rr = ''2:1'', pnl = Num 100, activeMgmt = ''N/A'',
               execution = ''A'', note_t = []\<rparr>,
              \<lparr>id_t = Num 2, date = ''2024-03-02'', tradeSetup = ''Scalp: T'',
               ticker = Some ''SOL'', rr = ''1.5:1'', pnl = Num (151 / 2), activeMgmt = ''5'',
               execution = ''A'', note_t = ''fixed''\<rparr>],
           nextId = Num 3, editId = None\<rparr>)" by code_simp
  show ?thesis
    using a b c d update_keeps_id_and_date [OF a b c, of "''2024-06-01''"] by simp
qed

subsection \<open>Statistics\<close>

lemma is_finite_Num: "is_finite x \<Longrightarrow> x = Num (num_val x)"
  by (cases x) simp_all











subsection \<open>Export followed by import\<close>

lemma row_split:
  assumes "csv_safe t"
  shows "splitCSVLine (join_comma (rowFields t))
           = [numToString (id_t t), date t, tradeSetup t, rr t, numToString (pnl t),
              activeMgmt t, execution t, note_t t]"
proof -
  have p0: "comma \<notin> set (numToString (id_t t))" "dquote \<notin> set (numToString (id_t t))"
    and p4: "comma \<notin> set (numToString (pnl t))" "dquote \<notin> set (numToString (pnl t))"
    using numToString_plain [of "id_t t"] numToString_plain [of "pnl t"]
    by (simp_all add: plain_text_def)
  have p1: "comma \<notin> set (date t)" "dquote \<notin> set (date t)"
    and p2: "comma \<notin> set (tradeSetup t)" "dquote \<notin> set (tradeSetup t)"
    and p3: "comma \<notin> set (rr t)" "dquote \<notin> set (rr t)"
    and p5: "comma \<notin> set (activeMgmt t)" "dquote \<notin> set (activeMgmt t)"
      "newline \<notin> set (activeMgmt t)"
    and p6: "comma \<notin> set (execution t)" "dquote \<notin> set (execution t)"
    and n: "quote_safe dquote (note_t t)"
    using assms by (simp_all add: csv_safe_def required_text_def plain_text_def note_text_def)
  have am: "escapeCSVField (activeMgmt t) = activeMgmt t"
    using p5 by (simp add: escapeCSVField_def needs_quoting_def)
  have last_field: "\<And>flds. scanRest (Some comma) (escapeCSVField (note_t t)) [] False flds
                     = flds @ [note_t t]"
  proof -
    fix flds
    show "scanRest (Some comma) (escapeCSVField (note_t t)) [] False flds = flds @ [note_t t]"
    proof (cases "needs_quoting (note_t t)")
      case False
      then have "comma \<notin> set (note_t t)" "dquote \<notin> set (note_t t)"
        by (simp_all add: needs_quoting_def)
      then show ?thesis
        using False by (simp add: escapeCSVField_def scan_plain_last unescape_quotes_id)
    next
      case True
      have "scanRest (Some comma) (dquote # double_quotes (note_t t) @ [dquote]) [] False flds
              = scanRest (Some dquote) (double_quotes (note_t t) @ [dquote]) [] True flds"
        by (simp add: scanRest.simps(2))
      then show ?thesis
        using True scan_quoted [OF n, of "[]" flds] unescape_quote_safe [OF n]
        by (simp add: escapeCSVField_def)
    qed
  qed
  show ?thesis
    by (simp add: splitCSVLine_scanRest rowFields_def am scan_plain p0 p1 p2 p3 p4 p5 p6
        last_field unescape_quotes_id)
qed

lemma row_parse:
  assumes "csv_safe t"
  shows "parseCSVLine (join_comma (rowFields t)) = Some (t\<lparr>ticker := None\<rparr>)"
proof -
  have e: "t\<lparr>ticker := None\<rparr>
             = \<lparr>id_t = id_t t, date = date t, tradeSetup = tradeSetup t, ticker = None,
                rr = rr t, pnl = pnl t, activeMgmt = activeMgmt t, execution = execution t,
                note_t = note_t t\<rparr>"
    by (cases t) simp
  show ?thesis
    unfolding e using assms
    by (simp add: parseCSVLine_def row_split [OF assms] csv_safe_def required_text_def
        note_text_def numToString_not_Nil)
qed

lemma header_facts:
  "CSV_HEADER \<noteq> []" "\<not> is_ws (hd CSV_HEADER)" "newline \<notin> set CSV_HEADER"
  "js_trim CSV_HEADER = CSV_HEADER"
  by code_simp+

lemma split_document:
  assumes "rows \<noteq> []"
    and "\<forall>r\<in>set rows. newline \<notin> set r \<and> r \<noteq> [] \<and> \<not> is_ws (last r)"
  shows "split_on newline (js_trim (CSV_HEADER @ [newline] @ concat (map (\<lambda>r. r @ [newline]) rows)))
           = CSV_HEADER # rows"
proof -
  obtain rs rl where rows: "rows = rs @ [rl]"
    using assms(1) by (metis append_butlast_last_id)
  define y where "y = CSV_HEADER @ [newline] @ concat (map (\<lambda>r. r @ [newline]) rs) @ rl"
  have rl: "rl \<noteq> []" "\<not> is_ws (last rl)" using assms(2) rows by simp_all
  have full: "CSV_HEADER @ [newline] @ concat (map (\<lambda>r. r @ [newline]) rows) = y @ [newline]"
    by (simp add: rows y_def)
  have "y \<noteq> []" "\<not> is_ws (hd y)" "\<not> is_ws (last y)"
    using header_facts rl by (simp_all add: y_def)
  then have trim: "js_trim (y @ [newline]) = y" by (rule js_trim_line)
  have "split_on newline (y @ [newline])
          = CSV_HEADER # split_on newline (concat (map (\<lambda>r. r @ [newline]) rows))"
    using split_on_sep [OF header_facts(3)] full by (metis append_Cons append_Nil)
  also have "\<dots> = CSV_HEADER # rows @ [[]]"
    using assms(2) by (simp add: split_on_rows)
  finally have "split_on newline y @ [[]] = (CSV_HEADER # rows) @ [[]]"
    by (simp add: split_on_snoc)
  then have "split_on newline y = CSV_HEADER # rows" by simp
  then show ?thesis unfolding full trim .
qed

lemma last_join_comma_8:
  "last (join_comma [a, b, c, d, e, f, g, h]) = (if h = [] then comma else last h)"
  by simp

lemma row_facts:
  assumes "csv_safe t"
  shows "newline \<notin> set (join_comma (rowFields t))"
    and "join_comma (rowFields t) \<noteq> []"
    and "\<not> is_ws (last (join_comma (rowFields t)))"
    and "js_trim (join_comma (rowFields t)) \<noteq> []"
proof -
  have pn: "newline \<notin> set (numToString (id_t t))" "newline \<notin> set (numToString (pnl t))"
    using numToString_plain [of "id_t t"] numToString_plain [of "pnl t"]
    by (simp_all add: plain_text_def)
  have pl: "newline \<notin> set (date t)"
    "newline \<notin> set (tradeSetup t)" "newline \<notin> set (rr t)"
    "newline \<notin> set (activeMgmt t)"
    "newline \<notin> set (execution t)" "newline \<notin> set (note_t t)"
    and tr: "js_trim (note_t t) = note_t t"
    using assms by (simp_all add: csv_safe_def required_text_def plain_text_def note_text_def)
  have dq: "\<And>f. newline \<notin> set f \<Longrightarrow> newline \<notin> set (double_quotes f)"
  proof -
    fix f show "newline \<notin> set f \<Longrightarrow> newline \<notin> set (double_quotes f)"
      by (induction f) auto
  qed
  have esc: "\<And>f. newline \<notin> set f \<Longrightarrow> newline \<notin> set (escapeCSVField f)"
    using dq by (simp add: escapeCSVField_def)
  show "newline \<notin> set (join_comma (rowFields t))"
    using pn pl esc by (simp add: rowFields_def)
  show ne: "join_comma (rowFields t) \<noteq> []"
    by (simp add: rowFields_def)
  have "no_outer_ws (note_t t)" using js_trim_no_outer_ws [of "note_t t"] tr by simp
  then have "escapeCSVField (note_t t) \<noteq> [] \<Longrightarrow> \<not> is_ws (last (escapeCSVField (note_t t)))"
    by (auto simp: escapeCSVField_def no_outer_ws_def is_ws_def)
  then show "\<not> is_ws (last (join_comma (rowFields t)))"
    unfolding rowFields_def last_join_comma_8 by (simp add: is_ws_def)
  have "comma \<in> set (join_comma (rowFields t))" by (simp add: rowFields_def)
  moreover have "\<not> is_ws comma" by (simp add: is_ws_def)
  ultimately show "js_trim (join_comma (rowFields t)) \<noteq> []"
    using js_trim_Nil_all_ws by blast
qed

lemma import_rows:
  assumes "\<forall>t\<in>set ts. csv_safe t"
    and "distinct (map id_t ts)"
    and "\<forall>t\<in>set ts. id_t t \<notin> id_t ` set (trades s)"
  shows "\<exists>s'. foldl (\<lambda>acc line. importLine line acc) (s, i, k)
                 (map (\<lambda>t. join_comma (rowFields t)) ts)
               = (s', i + length ts, k)
             \<and> trades s' = trades s @ map (\<lambda>t. t\<lparr>ticker := None\<rparr>) ts"
  using assms
proof (induction ts arbitrary: s i)
  case Nil
  show ?case by simp
next
  case (Cons t ts)
  have safe: "csv_safe t" using Cons.prems(1) by simp
  have fresh: "find (\<lambda>u. js_seq (id_t u) (id_t t)) (trades s) = None"
    using Cons.prems(3) by (auto simp: find_None_iff js_seq_def image_iff)
  obtain n where step: "importLine (join_comma (rowFields t)) (s, i, k)
           = (s\<lparr>trades := trades s @ [t\<lparr>ticker := None\<rparr>], nextId := n\<rparr>, i + 1, k)"
    using row_facts(4) [OF safe] row_parse [OF safe] fresh
    by (simp add: importLine_def Let_def)
  let ?s1 = "s\<lparr>trades := trades s @ [t\<lparr>ticker := None\<rparr>], nextId := n\<rparr>"
  have "\<forall>u\<in>set ts. id_t u \<notin> id_t ` set (trades ?s1)"
    using Cons.prems(2,3) by (auto simp: image_iff)
  from Cons.IH [OF _ _ this, of "i + 1"] Cons.prems(1,2)
  obtain s' where "foldl (\<lambda>acc line. importLine line acc) (?s1, i + 1, k)
                     (map (\<lambda>t. join_comma (rowFields t)) ts) = (s', i + 1 + length ts, k)"
    and "trades s' = trades ?s1 @ map (\<lambda>t. t\<lparr>ticker := None\<rparr>) ts"
    by auto
  then show ?case using step by simp
qed

text \<open>
  Claim C1, amended. Take a journal with at least one trade, the ids pairwise distinct,
  every trade such that its date, setup, risk-reward, active-management and execution texts
  are non-empty, have no white space around them and hold no comma, double quote or line
  feed, its note has no white space around it and holds no line feed, no two double quotes
  in a row and no double quote between two commas, and its id and PnL are written as texts
  that \<open>parseInt\<close> and \<open>parseFloat\<close> read back. Then the export succeeds (with the same
  text in every revision), and importing that text into a fresh journal imports every row,
  skips none and yields, in the same order, the trades with all their fields but the
  ticker, which the CSV does not carry.
\<close>

theorem csv_round_trip:
  assumes "trades s \<noteq> []"
    and "\<forall>t\<in>set (trades s). csv_safe t"
    and "distinct (map id_t (trades s))"
  shows "\<exists>csv. exportToCSV s = Some csv \<and> exportToCSV_v1 s = Some csv
           \<and> fst (processCSVData csv initial) = Imported (length (trades s)) 0
           \<and> trades (snd (processCSVData csv initial))
               = map (\<lambda>t. t\<lparr>ticker := None\<rparr>) (trades s)"
proof -
  let ?rows = "map (\<lambda>t. join_comma (rowFields t)) (trades s)"
  let ?csv = "CSV_HEADER @ [newline] @ concat (map (\<lambda>r. r @ [newline]) ?rows)"
  have rows: "exportRows rowFields (trades s) = concat (map (\<lambda>r. r @ [newline]) ?rows)"
    by (simp add: exportRows_def comp_def)
  have "\<forall>t\<in>set (trades s). rowFields_v1 t = rowFields t"
  proof
    fix t assume "t \<in> set (trades s)"
    then have "plain_text (activeMgmt t)"
      using assms(2) by (simp add: csv_safe_def required_text_def)
    then show "rowFields_v1 t = rowFields t"
      by (simp add: rowFields_v1_def rowFields_def escapeCSVField_def needs_quoting_def
          plain_text_def)
  qed
  then have v1: "exportRows rowFields_v1 (trades s) = exportRows rowFields (trades s)"
    by (simp add: exportRows_def cong: map_cong)
  have e: "exportToCSV s = Some ?csv" and e1: "exportToCSV_v1 s = Some ?csv"
    using assms(1) rows v1 by (simp_all add: exportToCSV_def exportToCSV_v1_def)
  have "?rows \<noteq> []" using assms(1) by simp
  moreover have "\<forall>r\<in>set ?rows. newline \<notin> set r \<and> r \<noteq> [] \<and> \<not> is_ws (last r)"
    using assms(2) row_facts by auto
  ultimately have lines: "split_on newline (js_trim ?csv) = CSV_HEADER # ?rows"
    by (rule split_document)
  have "\<forall>t\<in>set (trades s). id_t t \<notin> id_t ` set (trades initial)"
    by (simp add: initial_def)
  from import_rows [OF assms(2,3) this, of 0 0]
  obtain s' where f: "foldl (\<lambda>acc line. importLine line acc) (initial, 0, 0) ?rows
                       = (s', length (trades s), 0)"
    and t: "trades s' = map (\<lambda>t. t\<lparr>ticker := None\<rparr>) (trades s)"
    by (auto simp: initial_def)
  have "processCSVData ?csv initial = (Imported (length (trades s)) 0, s')"
    unfolding processCSVData_def lines using assms(1) f
    by (simp add: header_facts(4) Let_def)
  then show ?thesis using e e1 t by simp
qed

text \<open>
  Claim C1, as stated, fails: the only trade of this journal has a ticker; its export has
  no ticker column, and the record read back has no ticker, so it is not the trade exported.
  It fails without a ticker as well: a trade whose setup holds a comma is written as a row
  of nine fields, which the import skips.
\<close>

theorem ticker_is_lost_in_round_trip:
  "exportToCSV ticker_journal = Some ticker_csv
   \<and> processCSVData ticker_csv initial
       = (Imported 1 0,
          \<lparr>trades =
             [\<lparr>id_t = Num 1, date = ''2024-03-01'', tradeSetup = ''Scalp: W'', ticker = None,
               rr = ''2:1'', pnl = Num 100, activeMgmt = ''N/A'', execution = ''A'',
               note_t = ''first''\<rparr>],
           nextId = Num 2, editId = None\<rparr>)
   \<and> trades (snd (processCSVData ticker_csv initial)) \<noteq> trades ticker_journal
   \<and> exportToCSV comma_setup_journal = Some comma_setup_csv
   \<and> exportToCSV_v1 comma_setup_journal = Some comma_setup_csv
   \<and> processCSVData comma_setup_csv initial = (Imported 0 1, initial)"
  by code_simp

theorem csv_round_trip_witness:
  "trades safe_journal \<noteq> [] \<and> list_all csv_safe (trades safe_journal)
   \<and> distinct (map id_t (trades safe_journal))
   \<and> trades (snd (processCSVData (the (exportToCSV safe_journal)) initial))
       = trades safe_journal"
proof -
  have a: "trades safe_journal \<noteq> []" by code_simp
  have b: "list_all csv_safe (trades safe_journal)" by code_simp
  have c: "distinct (map id_t (trades safe_journal))" by code_simp
  have b': "\<forall>t\<in>set (trades safe_journal). csv_safe t" using b by (simp add: list_all_iff)
  have d: "map (\<lambda>t. t\<lparr>ticker := None\<rparr>) (trades safe_journal) = trades safe_journal"
    by (simp add: safe_journal_def)
  from csv_round_trip [OF a b' c] a b c d show ?thesis by auto
qed

end
